theory Spec2Isabelle
  imports Main "HOL-Library.AList"
begin

section \<open>Job records\<close>

text \<open>
  \<^verbatim>\<open>ciserver.go\<close>: \<^verbatim>\<open>type JobID string\<close>, \<^verbatim>\<open>type JobStatus string\<close> with its four
  constants, and \<^verbatim>\<open>type Job struct\<close>. Go strings are byte sequences, as HOL's are. A
  \<^verbatim>\<open>[]string\<close> is modelled by its sequence of elements: a nil slice and an empty slice
  are both \<open>[]\<close>.
\<close>

type_synonym JobID = string

datatype JobStatus =
    JobStatusPending
  | JobStatusRunning
  | JobStatusSuccess
  | JobStatusFailure

record Job =
  ID :: JobID
  Status :: JobStatus
  RepoURI :: string
  Commit :: string
  Command :: string
  Logs :: "string list"

section \<open>The string functions of the standard library that the pipeline calls\<close>

text \<open>
  \<^verbatim>\<open>strings.Fields\<close> splits around runs of white space as \<^verbatim>\<open>unicode.IsSpace\<close> defines
  it. On the bytes of a string these are the six ASCII characters TAB, LF, VT, FF, CR and
  SPACE, and the UTF-8 encodings of U+0085, U+00A0, U+1680, U+2000 to U+200A, U+2028,
  U+2029, U+202F, U+205F and U+3000. \<open>spaceWidth\<close> is the number of bytes of the white
  space character a byte sequence starts with, or 0 when it starts with none. No
  encoding of a white space character starts at a continuation byte, so scanning the
  other bytes one at a time finds the same fields as scanning rune by rune.
\<close>

fun spaceWidth :: "nat list \<Rightarrow> nat" where
  "spaceWidth [] = 0"
| "spaceWidth (b0 # bs) =
     (if (9 \<le> b0 \<and> b0 \<le> 13) \<or> b0 = 32 then 1
      else if b0 = 0xC2 \<and> (case bs of b1 # _ \<Rightarrow> b1 = 0x85 \<or> b1 = 0xA0 | [] \<Rightarrow> False) then 2
      else if (case bs of
                 b1 # b2 # _ \<Rightarrow>
                   (b0 = 0xE1 \<and> b1 = 0x9A \<and> b2 = 0x80) \<or>
                   (b0 = 0xE2 \<and> b1 = 0x80 \<and>
                      ((0x80 \<le> b2 \<and> b2 \<le> 0x8A) \<or> b2 = 0xA8 \<or> b2 = 0xA9 \<or> b2 = 0xAF)) \<or>
                   (b0 = 0xE2 \<and> b1 = 0x81 \<and> b2 = 0x9F) \<or>
                   (b0 = 0xE3 \<and> b1 = 0x80 \<and> b2 = 0x80)
               | _ \<Rightarrow> False) then 3
      else 0)"

definition isSpaceAt :: "string \<Rightarrow> nat" where
  "isSpaceAt s = spaceWidth (map of_char s)"

text \<open>
  The scan of \<^verbatim>\<open>strings.FieldsFunc\<close>: \<open>cur\<close> is the field being read (empty between
  fields); a white space character closes it.
\<close>

function FieldsFrom :: "string \<Rightarrow> string \<Rightarrow> string list" where
  "FieldsFrom cur [] = (if cur = [] then [] else [cur])"
| "FieldsFrom cur (c # cs) =
     (if isSpaceAt (c # cs) = 0 then FieldsFrom (cur @ [c]) cs
      else (if cur = [] then [] else [cur]) @ FieldsFrom [] (drop (isSpaceAt (c # cs) - 1) cs))"
  by pat_completeness auto
termination
  by (relation "measure (\<lambda>(cur, s). length s)") auto

definition Fields :: "string \<Rightarrow> string list" where
  "Fields s = FieldsFrom [] s"

text \<open>
  \<^verbatim>\<open>strings.Split(s, sep)\<close> for a separator of one byte (the source passes \<^verbatim>\<open>"\n"\<close>):
  the pieces between the separators, empty ones included, so one piece more than there
  are separators.
\<close>

fun SplitFrom :: "string \<Rightarrow> char \<Rightarrow> string \<Rightarrow> string list" where
  "SplitFrom cur sep [] = [cur]"
| "SplitFrom cur sep (c # cs) =
     (if c = sep then cur # SplitFrom [] sep cs else SplitFrom (cur @ [c]) sep cs)"

definition Split :: "string \<Rightarrow> char \<Rightarrow> string list" where
  "Split s sep = SplitFrom [] sep s"

section \<open>The external collaborators\<close>

text \<open>
  The pipeline of one job calls the operating system, the git library and the command's
  subprocess. Their code is not part of the repository; what they answer is a parameter
  of the model. An error value is modelled by its message (\<^verbatim>\<open>err.Error()\<close>).
  \<^item> \<open>osMkdirTemp\<close>: \<^verbatim>\<open>os.MkdirTemp("", "ocuroot-ci-job-")\<close>, the error or the directory;
  \<^item> \<open>gitClone uri dir\<close>: \<^verbatim>\<open>client.Clone(repoURI, tempDir)\<close>, the error if any;
  \<^item> \<open>gitOpen dir\<close>: \<^verbatim>\<open>gittools.Open(tempDir)\<close>, the error if any;
  \<^item> \<open>gitCheckout dir commit\<close>: \<^verbatim>\<open>repo.Checkout(commit)\<close> on the repository opened at
    \<open>dir\<close>, the error if any;
  \<^item> \<open>cmdCombinedOutput name args dir\<close>: \<^verbatim>\<open>exec.Command(name, args...)\<close> with
    \<^verbatim>\<open>cmd.Dir = dir\<close>, then \<^verbatim>\<open>cmd.CombinedOutput()\<close>: the captured output and the
    error if any (\<open>None\<close> is exit status zero).
\<close>

record env =
  osMkdirTemp :: "string + string"
  gitClone :: "string \<Rightarrow> string \<Rightarrow> string option"
  gitOpen :: "string \<Rightarrow> string option"
  gitCheckout :: "string \<Rightarrow> string \<Rightarrow> string option"
  cmdCombinedOutput :: "string \<Rightarrow> string list \<Rightarrow> string \<Rightarrow> string \<times> string option"

section \<open>The execution pipeline as a sequence of atomic steps\<close>

text \<open>
  The goroutine of a job writes the fields of its record one assignment at a time while
  readers look at the record, and it calls the collaborators in between. Each function
  of the pipeline is therefore modelled by the steps it performs, in program order: an
  assignment to \<^verbatim>\<open>job.Status\<close>, an append to \<^verbatim>\<open>job.Logs\<close>, or an external call.
\<close>

datatype call =
    MkdirTemp "string + string"
  | Clone string string
  | OpenRepo string
  | Checkout string string
  | Run string "string list" string
  | RemoveAll string

datatype step =
    SetStatus JobStatus
  | AppendLog string
  | Ext call

text \<open>
  \<^verbatim>\<open>executeCommand(command, dir, job)\<close>: the steps and the returned error.
\<close>

definition executeCommand :: "env \<Rightarrow> string \<Rightarrow> string \<Rightarrow> step list \<times> string option" where
  "executeCommand e command dir =
     (let cmdParts = Fields command in
      if length cmdParts = 0 then
        ([AppendLog (''Executing command: '' @ command),
          AppendLog ''Error: empty command''],
         Some ''empty command'')
      else
        (let (output, err) = cmdCombinedOutput e (hd cmdParts) (tl cmdParts) dir;
             run = [AppendLog (''Executing command: '' @ command),
                    Ext (Run (hd cmdParts) (tl cmdParts) dir)] @
                   map (\<lambda>line. AppendLog (''> '' @ line))
                     (filter (\<lambda>line. line \<noteq> '''') (Split output (CHR 0x0A)))
         in case err of
              Some msg \<Rightarrow> (run @ [AppendLog (''Command execution failed: '' @ msg)], Some msg)
            | None \<Rightarrow> (run @ [AppendLog ''Command executed successfully''], None)))"

text \<open>
  \<^verbatim>\<open>cloneAndCheckout(repoURI, commit, job)\<close>: the steps, and the error (\<open>Inl\<close>) or the
  directory (\<open>Inr\<close>).
\<close>

definition cloneAndCheckout :: "env \<Rightarrow> string \<Rightarrow> string \<Rightarrow> step list \<times> (string + string)" where
  "cloneAndCheckout e repoURI commit =
     (case osMkdirTemp e of
        Inl err \<Rightarrow>
          ([Ext (MkdirTemp (Inl err)),
            AppendLog (''Failed to create temp directory: '' @ err)], Inl err)
      | Inr tempDir \<Rightarrow>
          (let cloning = [Ext (MkdirTemp (Inr tempDir)),
                          AppendLog (''Cloning repository: '' @ repoURI),
                          Ext (Clone repoURI tempDir)]
           in case gitClone e repoURI tempDir of
                Some err \<Rightarrow>
                  (cloning @ [AppendLog (''Failed to clone repository: '' @ err),
                              Ext (RemoveAll tempDir)], Inl err)
              | None \<Rightarrow>
                  (let opening = cloning @ [Ext (OpenRepo tempDir)]
                   in case gitOpen e tempDir of
                        Some err \<Rightarrow>
                          (opening @ [AppendLog (''Failed to open repository: '' @ err),
                                      Ext (RemoveAll tempDir)], Inl err)
                      | None \<Rightarrow>
                          (let checking = opening @
                                 [AppendLog (''Checking out commit: '' @ commit),
                                  Ext (Checkout tempDir commit)]
                           in case gitCheckout e tempDir commit of
                                Some err \<Rightarrow>
                                  (checking @
                                     [AppendLog (''Failed to checkout commit: '' @ err),
                                      Ext (RemoveAll tempDir)], Inl err)
                              | None \<Rightarrow>
                                  (checking @
                                     [AppendLog (''Repository ready at '' @ tempDir)],
                                   Inr tempDir)))))"

text \<open>
  The body of the goroutine that \<^verbatim>\<open>ScheduleJob\<close> starts. The deferred
  \<^verbatim>\<open>os.RemoveAll(tempDir)\<close> runs when the body returns, after the last assignment to
  \<^verbatim>\<open>job.Status\<close>.
\<close>

definition pipeline :: "env \<Rightarrow> string \<Rightarrow> string \<Rightarrow> string \<Rightarrow> step list" where
  "pipeline e repoURI commit command =
     [SetStatus JobStatusRunning, AppendLog ''Starting job execution''] @
     (case cloneAndCheckout e repoURI commit of
        (cloned, Inl err) \<Rightarrow> cloned @ [SetStatus JobStatusFailure]
      | (cloned, Inr tempDir) \<Rightarrow>
          cloned @ [AppendLog ''Repository ready for job execution''] @
          (case executeCommand e command tempDir of
             (executed, Some err) \<Rightarrow> executed @ [SetStatus JobStatusFailure]
           | (executed, None) \<Rightarrow> executed @ [SetStatus JobStatusSuccess]) @
          [Ext (RemoveAll tempDir)])"

text \<open>
  What one step does to the job record and to the temporary directories on disk. Of the
  disk the model tracks the directories \<^verbatim>\<open>os.MkdirTemp\<close> made: \<^verbatim>\<open>os.RemoveAll\<close> deletes one,
  the other calls leave them in place.
\<close>

fun stepJob :: "step \<Rightarrow> Job \<Rightarrow> Job" where
  "stepJob (SetStatus st) job = job\<lparr>Status := st\<rparr>"
| "stepJob (AppendLog line) job = job\<lparr>Logs := Logs job @ [line]\<rparr>"
| "stepJob (Ext c) job = job"

fun stepDisk :: "step \<Rightarrow> string list \<Rightarrow> string list" where
  "stepDisk (Ext (MkdirTemp (Inr dir))) disk = disk @ [dir]"
| "stepDisk (Ext (RemoveAll dir)) disk = removeAll dir disk"
| "stepDisk s disk = disk"

definition runJob :: "step list \<Rightarrow> Job \<Rightarrow> Job" where
  "runJob steps job = fold stepJob steps job"


fun externalCalls :: "step list \<Rightarrow> call list" where
  "externalCalls [] = []"
| "externalCalls (Ext c # steps) = c # externalCalls steps"
| "externalCalls (s # steps) = externalCalls steps"

fun statusWrites :: "step list \<Rightarrow> JobStatus list" where
  "statusWrites [] = []"
| "statusWrites (SetStatus st # steps) = st # statusWrites steps"
| "statusWrites (s # steps) = statusWrites steps"

section \<open>The job store\<close>

text \<open>
  \<^verbatim>\<open>CIServer.jobs\<close> is a \<^verbatim>\<open>map[JobID]*Job\<close>: the map holds pointers, and the goroutine
  of a job writes through its own copy of the pointer. The state of the process is
  therefore the map from identifiers to addresses, the Job records at these addresses,
  the goroutines that \<^verbatim>\<open>ScheduleJob\<close> started (each with the address it captured and
  the steps it still has to perform) and the temporary directories on disk. An address is
  the index of the record in \<open>heap\<close>; a map is an association list with distinct keys
  (Go iterates over a map in an unspecified order, so the theorems below speak of the set
  of the listed identifiers, not of their order).
\<close>

record sys =
  jobs :: "(JobID \<times> nat) list"
  heap :: "Job list"
  goroutines :: "(nat \<times> step list) list"
  disk :: "string list"

text \<open>
  Every operation of the store is modelled with the sequence of its accesses to
  \<^verbatim>\<open>jobMutex\<close> and to the map, in program order (a deferred unlock comes last), next to
  its result.
\<close>

datatype act =
    Lock
  | Unlock
  | RLock
  | RUnlock
  | MapLoad JobID
  | MapStore JobID
  | MapRange

text \<open>\<^verbatim>\<open>NewCIServer\<close>: an empty map; nothing else exists yet.\<close>

definition NewCIServer :: sys where
  "NewCIServer = \<lparr>jobs = [], heap = [], goroutines = [], disk = []\<rparr>"

text \<open>\<^verbatim>\<open>saveJob(job)\<close>, \<open>job\<close> being the address of the record.\<close>

definition saveJob :: "sys \<Rightarrow> nat \<Rightarrow> act list \<times> sys" where
  "saveJob s job =
     ([Lock, MapStore (ID (heap s ! job)), Unlock],
      s\<lparr>jobs := AList.update (ID (heap s ! job)) job (jobs s)\<rparr>)"

text \<open>
  \<^verbatim>\<open>ScheduleJob(repoURI, commit, command)\<close>. \<open>newID\<close> is what \<^verbatim>\<open>NewJobID()\<close> returns (the
  ULID library is outside the repository), \<open>e\<close> what the collaborators will answer to the
  goroutine. The result is the accesses, the returned identifier and the new state.
\<close>

definition ScheduleJob ::
  "sys \<Rightarrow> JobID \<Rightarrow> env \<Rightarrow> string \<Rightarrow> string \<Rightarrow> string \<Rightarrow> act list \<times> JobID \<times> sys" where
  "ScheduleJob s newID e repoURI commit command =
     (let job = length (heap s);
          s1 = s\<lparr>heap := heap s @
                 [\<lparr>ID = newID, Status = JobStatusPending, RepoURI = repoURI,
                   Commit = commit, Command = command, Logs = []\<rparr>]\<rparr>;
          (acts, s2) = saveJob s1 job;
          s3 = s2\<lparr>goroutines := goroutines s2 @ [(job, pipeline e repoURI commit command)]\<rparr>
      in (acts, ID (heap s3 ! job), s3))"

definition ListJobs :: "sys \<Rightarrow> act list \<times> JobID list" where
  "ListJobs s = ([RLock, MapRange, RUnlock], map fst (jobs s))"

definition AllJobDetail :: "sys \<Rightarrow> act list \<times> Job list" where
  "AllJobDetail s = ([RLock, MapRange, RUnlock], map (\<lambda>(jobID, job). heap s ! job) (jobs s))"

definition JobDetail :: "sys \<Rightarrow> JobID \<Rightarrow> act list \<times> Job" where
  "JobDetail s jobID =
     ([RLock, MapLoad jobID, RUnlock],
      case map_of (jobs s) jobID of
        None \<Rightarrow> \<lparr>ID = jobID, Status = JobStatusFailure, RepoURI = '''', Commit = '''',
                  Command = '''', Logs = []\<rparr>
      | Some job \<Rightarrow> heap s ! job)"

definition JobLogs :: "sys \<Rightarrow> JobID \<Rightarrow> act list \<times> string list" where
  "JobLogs s jobID =
     ([MapLoad jobID],
      case map_of (jobs s) jobID of
        None \<Rightarrow> []
      | Some job \<Rightarrow> Logs (heap s ! job))"

text \<open>
  The lock discipline of one operation: a read of the map needs the lock held, shared or
  exclusive; a write needs it held exclusively.
\<close>

datatype held = NotHeld | HeldShared | HeldExclusive

fun locked :: "held \<Rightarrow> act list \<Rightarrow> bool" where
  "locked h [] = True"
| "locked h (Lock # acts) = locked HeldExclusive acts"
| "locked h (RLock # acts) = locked HeldShared acts"
| "locked h (Unlock # acts) = locked NotHeld acts"
| "locked h (RUnlock # acts) = locked NotHeld acts"
| "locked h (MapLoad k # acts) = (h \<noteq> NotHeld \<and> locked h acts)"
| "locked h (MapRange # acts) = (h \<noteq> NotHeld \<and> locked h acts)"
| "locked h (MapStore k # acts) = (h = HeldExclusive \<and> locked h acts)"

section \<open>Executions of the whole process\<close>

text \<open>
  An execution is a sequence of events: a call of \<^verbatim>\<open>ScheduleJob\<close> (atomic here: the
  record is invisible to every other goroutine until \<^verbatim>\<open>saveJob\<close>, and the goroutine is
  started right after it), or one goroutine performing its next step on the record it
  captured. Any interleaving of the goroutines is such a sequence.
\<close>

datatype event =
    Submit JobID env string string string
  | Advance nat

fun fire :: "event \<Rightarrow> sys \<Rightarrow> sys" where
  "fire (Submit newID e repoURI commit command) s =
     snd (snd (ScheduleJob s newID e repoURI commit command))"
| "fire (Advance g) s =
     (if g < length (goroutines s) then
        (case goroutines s ! g of
           (job, []) \<Rightarrow> s
         | (job, st # rest) \<Rightarrow>
             s\<lparr>heap := (heap s)[job := stepJob st (heap s ! job)],
               goroutines := (goroutines s)[g := (job, rest)],
               disk := stepDisk st (disk s)\<rparr>)
      else s)"

definition exec :: "event list \<Rightarrow> sys \<Rightarrow> sys" where
  "exec evs s = fold fire evs s"

fun submitted :: "event list \<Rightarrow> JobID list" where
  "submitted [] = []"
| "submitted (Submit newID e repoURI commit command # evs) = newID # submitted evs"
| "submitted (Advance g # evs) = submitted evs"

text \<open>The lifecycle: the moves a status may make in one step, and in any number of steps.\<close>

fun advances :: "JobStatus \<Rightarrow> JobStatus \<Rightarrow> bool" where
  "advances JobStatusPending JobStatusRunning = True"
| "advances JobStatusRunning JobStatusSuccess = True"
| "advances JobStatusRunning JobStatusFailure = True"
| "advances a b = False"

fun terminal :: "JobStatus \<Rightarrow> bool" where
  "terminal JobStatusSuccess = True"
| "terminal JobStatusFailure = True"
| "terminal a = False"

fun notEarlier :: "JobStatus \<Rightarrow> JobStatus \<Rightarrow> bool" where
  "notEarlier JobStatusPending b = True"
| "notEarlier JobStatusRunning b = (b \<noteq> JobStatusPending)"
| "notEarlier a b = (b = a)"

fun chain :: "JobStatus \<Rightarrow> JobStatus list \<Rightarrow> bool" where
  "chain a [] = True"
| "chain a (b # bs) = (advances a b \<and> chain b bs)"

section \<open>The quiescence wait of the REST server\<close>

text \<open>
  \<^verbatim>\<open>handleWait\<close> reads the clock, reads the store through \<^verbatim>\<open>ListJobs\<close> and
  \<^verbatim>\<open>AllJobDetail\<close> and sleeps; meanwhile the other goroutines change the store. What the
  handler meets is a parameter:
  \<^item> \<open>observed k\<close>: the state of the process at the handler's \<open>k\<close>-th read of the store
    (\<open>k = 0, 1, ...\<close>);
  \<^item> \<open>late n\<close>: the time the \<open>n\<close>-th turn of a polling loop takes beyond the 100 ms that
    \<^verbatim>\<open>time.Sleep\<close> guarantees;
  \<^item> \<open>ctxDone\<close>: the instant, counted from the start of the handler, at which the caller
    cancels the request's context, if it does.
  Durations are in nanoseconds, as \<^verbatim>\<open>time.Duration\<close> is.
\<close>

definition Millisecond :: nat where
  "Millisecond = 1000000"

definition Second :: nat where
  "Second = 1000 * Millisecond"

definition Minute :: nat where
  "Minute = 60 * Second"

record wenv =
  observed :: "nat \<Rightarrow> sys"
  late :: "nat \<Rightarrow> nat"
  ctxDone :: "nat option"

text \<open>
  The handler's own state: the time since it started, how many reads and sleeps it has
  made, and the instants of its reads of the store.
\<close>

record wstate =
  clock :: nat
  nreads :: nat
  nsleeps :: nat
  polls :: "nat list"

definition readStore :: "wenv \<Rightarrow> wstate \<Rightarrow> sys \<times> wstate" where
  "readStore w st =
     (observed w (nreads st), st\<lparr>nreads := nreads st + 1, polls := polls st @ [clock st]\<rparr>)"

definition Sleep :: "wenv \<Rightarrow> wstate \<Rightarrow> wstate" where
  "Sleep w st =
     st\<lparr>clock := clock st + 100 * Millisecond + late w (nsleeps st), nsleeps := nsleeps st + 1\<rparr>"

text \<open>
  The first loop: \<^verbatim>\<open>for time.Since(start) < 30*time.Second\<close>, left by \<^verbatim>\<open>break\<close> when
  \<^verbatim>\<open>ListJobs\<close> returns an identifier.
\<close>

function arrival :: "wenv \<Rightarrow> nat \<Rightarrow> wstate \<Rightarrow> wstate" where
  "arrival w start st =
     (if clock st - start < 30 * Second then
        (if length (snd (ListJobs (fst (readStore w st)))) > 0 then snd (readStore w st)
         else arrival w start (Sleep w (snd (readStore w st))))
      else st)"
  by pat_completeness auto
termination
  by (relation "measure (\<lambda>(w, start, st). 30 * Second + start - clock st)")
     (auto simp: Sleep_def readStore_def Millisecond_def)

text \<open>The inner loop of the second phase, with its \<^verbatim>\<open>break\<close>.\<close>

fun allDone :: "Job list \<Rightarrow> bool" where
  "allDone [] = True"
| "allDone (job # detail) =
     (if Status job = JobStatusPending \<or> Status job = JobStatusRunning then False
      else allDone detail)"

text \<open>
  The second loop: the result is \<open>True\<close> when it is left by the timeout, \<open>False\<close> when it
  is left by \<^verbatim>\<open>break\<close>.
\<close>

function drain :: "wenv \<Rightarrow> nat \<Rightarrow> wstate \<Rightarrow> bool \<times> wstate" where
  "drain w start st =
     (if clock st - start > 5 * Minute then (True, st)
      else if allDone (snd (AllJobDetail (fst (readStore w st)))) then (False, snd (readStore w st))
      else drain w start (Sleep w (snd (readStore w st))))"
  by pat_completeness auto
termination
  by (relation "measure (\<lambda>(w, start, st). 5 * Minute + 1 + start - clock st)")
     (auto simp: Sleep_def readStore_def Millisecond_def)

text \<open>The last loop: the first job that is not \<^verbatim>\<open>JobStatusSuccess\<close> ends the handler.\<close>

fun someNotSuccess :: "Job list \<Rightarrow> bool" where
  "someNotSuccess [] = False"
| "someNotSuccess (job # detail) =
     (if Status job \<noteq> JobStatusSuccess then True else someNotSuccess detail)"

text \<open>
  \<^verbatim>\<open>handleWait\<close>: the message it writes, and its final state. (The status code passed to
  \<^verbatim>\<open>writeJSONNoContentType\<close> is not used there, and the header was written at the top
  of the handler: the message alone tells the outcomes apart.) The four outcomes of the
  specification are the four messages. The goroutine started at the top of the handler
  only prints which of the handler and the request's context was done first; it is left
  out with the other printing. Nothing else in the handler refers to the context.
\<close>

definition handleWait :: "wenv \<Rightarrow> string \<times> wstate" where
  "handleWait w =
     (let st0 = \<lparr>clock = 0, nreads = 0, nsleeps = 0, polls = []\<rparr>;
          st1 = arrival w (clock st0) st0;
          (s1, st2) = readStore w st1
      in if length (snd (ListJobs s1)) = 0 then (''no jobs scheduled'', st2)
         else
           (case drain w (clock st2) st2 of
              (True, st3) \<Rightarrow> (''timeout waiting for jobs to complete'', st3)
            | (False, st3) \<Rightarrow>
                (let (s2, st4) = readStore w st3
                 in if someNotSuccess (snd (AllJobDetail s2))
                    then (''one or more jobs failed'', st4)
                    else (''all jobs completed successfully'', st4))))"

abbreviation no_jobs :: string where
  "no_jobs \<equiv> ''no jobs scheduled''"

abbreviation timeout :: string where
  "timeout \<equiv> ''timeout waiting for jobs to complete''"

abbreviation some_failed :: string where
  "some_failed \<equiv> ''one or more jobs failed''"

abbreviation all_succeeded :: string where
  "all_succeeded \<equiv> ''all jobs completed successfully''"

section \<open>Notions used to state the properties\<close>

fun logLines :: "step list \<Rightarrow> string list" where
  "logLines [] = []"
| "logLines (AppendLog line # steps) = line # logLines steps"
| "logLines (s # steps) = logLines steps"

text \<open>
  A string made of white space only, in the sense of \<^verbatim>\<open>unicode.IsSpace\<close>: it can be
  read as a sequence of white space characters.
\<close>

function allSpace :: "string \<Rightarrow> bool" where
  "allSpace [] = True"
| "allSpace (c # cs) =
     (isSpaceAt (c # cs) > 0 \<and> allSpace (drop (isSpaceAt (c # cs) - 1) cs))"
  by pat_completeness auto
termination
  by (relation "measure length") auto

text \<open>Collaborators for the examples: everything succeeds and the command prints one line.\<close>

definition env_ok :: env where
  "env_ok =
     \<lparr>osMkdirTemp = Inr ''/tmp/ocuroot-ci-job-1'',
      gitClone = (\<lambda>uri dir. None),
      gitOpen = (\<lambda>dir. None),
      gitCheckout = (\<lambda>dir commit. None),
      cmdCombinedOutput = (\<lambda>name args dir. (''hello'' @ [CHR 0x0A], None))\<rparr>"

text \<open>The same, with a repository that cannot be cloned.\<close>

definition env_unreachable :: env where
  "env_unreachable = env_ok\<lparr>gitClone := (\<lambda>uri dir. Some ''repository not found'')\<rparr>"

definition job0 :: Job where
  "job0 = \<lparr>ID = ''01J'', Status = JobStatusPending, RepoURI = ''repo'', Commit = ''HEAD'',
            Command = ''echo hello'', Logs = []\<rparr>"

text \<open>
  The shape of every state an execution reaches: the goroutine started by the \<open>g\<close>-th
  call of \<^verbatim>\<open>ScheduleJob\<close> holds the address of the \<open>g\<close>-th record, the status writes
  it still has to perform continue the lifecycle from the record's present status, and
  the map sends every identifier it holds to a record that carries this identifier.
\<close>

definition wellFormed :: "sys \<Rightarrow> bool" where
  "wellFormed s \<longleftrightarrow>
     length (goroutines s) = length (heap s)
   \<and> (\<forall>g < length (goroutines s).
        fst (goroutines s ! g) = g
      \<and> chain (Status (heap s ! g)) (statusWrites (snd (goroutines s ! g))))
   \<and> (\<forall>(jobID, job) \<in> set (jobs s). job < length (heap s) \<and> ID (heap s ! job) = jobID)
   \<and> distinct (map fst (jobs s))"

text \<open>The identifiers that the calls of \<^verbatim>\<open>ScheduleJob\<close> in an execution return.\<close>

fun returnedIDs :: "event list \<Rightarrow> sys \<Rightarrow> JobID list" where
  "returnedIDs [] s = []"
| "returnedIDs (Submit newID e repoURI commit command # evs) s =
     fst (snd (ScheduleJob s newID e repoURI commit command)) #
     returnedIDs evs (fire (Submit newID e repoURI commit command) s)"
| "returnedIDs (Advance g # evs) s = returnedIDs evs (fire (Advance g) s)"

text \<open>
  Executions for the examples. One job is submitted; \<open>sRunning\<close> is the state after the
  first step of its goroutine, \<open>sDone\<close> the state after its sixteen steps, \<open>sNext\<close> the
  state right after a second job has been submitted to \<open>sDone\<close>.
\<close>

definition submit1 :: event where
  "submit1 = Submit ''01J'' env_ok ''repo'' ''HEAD'' ''echo hello''"

definition submit2 :: event where
  "submit2 = Submit ''01K'' env_ok ''repo'' ''HEAD'' ''echo hello''"

definition sRunning :: sys where
  "sRunning = exec [submit1, Advance 0] NewCIServer"

definition sDone :: sys where
  "sDone =
     exec [submit1, Advance 0, Advance 0, Advance 0, Advance 0, Advance 0, Advance 0, Advance 0,
           Advance 0, Advance 0, Advance 0, Advance 0, Advance 0, Advance 0, Advance 0,
           Advance 0, Advance 0] NewCIServer"

definition sNext :: sys where
  "sNext = fire submit2 sDone"

text \<open>
  A wait that finds the first job finished at its first three reads of the store, and
  the second job submitted at its fourth read.
\<close>

definition wait_race :: wenv where
  "wait_race = \<lparr>observed = (\<lambda>k. if k < 3 then sDone else sNext), late = (\<lambda>n. 0),
                 ctxDone = None\<rparr>"

text \<open>
  A wait whose caller cancels the request at once, while the job is running; the job
  is found finished at the sixth read.
\<close>

definition wait_cancelled :: wenv where
  "wait_cancelled = \<lparr>observed = (\<lambda>k. if k < 5 then sRunning else sDone), late = (\<lambda>n. 0),
                      ctxDone = Some 0\<rparr>"

section \<open>Steps, logs and statuses\<close>

lemma logLines_append: "logLines (xs @ ys) = logLines xs @ logLines ys"
  by (induction xs rule: logLines.induct) auto
lemma statusWrites_append: "statusWrites (xs @ ys) = statusWrites xs @ statusWrites ys"
  by (induction xs rule: statusWrites.induct) auto
lemma externalCalls_append: "externalCalls (xs @ ys) = externalCalls xs @ externalCalls ys"
  by (induction xs rule: externalCalls.induct) auto
lemma logLines_map_AppendLog: "logLines (map (\<lambda>l. AppendLog (f l)) ls) = map f ls"
  by (induction ls) auto
lemma statusWrites_map_AppendLog: "statusWrites (map (\<lambda>l. AppendLog (f l)) ls) = []"
  by (induction ls) auto
lemma externalCalls_map_AppendLog: "externalCalls (map (\<lambda>l. AppendLog (f l)) ls) = []"
  by (induction ls) auto

lemma Logs_fold: "Logs (fold stepJob steps job) = Logs job @ logLines steps"
  by (induction steps arbitrary: job rule: logLines.induct) auto
lemma Status_fold: "Status (fold stepJob steps job) = last (Status job # statusWrites steps)"
  by (induction steps arbitrary: job rule: statusWrites.induct) auto
lemma fixed_fold: "ID (fold stepJob steps job) = ID job \<and> RepoURI (fold stepJob steps job) = RepoURI job
   \<and> Commit (fold stepJob steps job) = Commit job \<and> Command (fold stepJob steps job) = Command job"
  by (induction steps arbitrary: job rule: statusWrites.induct) auto

lemma statusWrites_clone: "statusWrites (fst (cloneAndCheckout e r c)) = []"
  by (simp add: cloneAndCheckout_def Let_def split: sum.splits option.splits)
lemma statusWrites_execute: "statusWrites (fst (executeCommand e c d)) = []"
  by (simp add: executeCommand_def Let_def statusWrites_append statusWrites_map_AppendLog split: prod.splits option.splits)

lemma statusWrites_pipeline:
  "statusWrites (pipeline e r c cmd) = [JobStatusRunning, JobStatusFailure] \<or>
   statusWrites (pipeline e r c cmd) = [JobStatusRunning, JobStatusSuccess]"
proof (cases "cloneAndCheckout e r c")
  case (Pair cloned res)
  have c: "statusWrites cloned = []"
    using statusWrites_clone[of e r c] Pair by simp
  show ?thesis
  proof (cases res)
    case (Inl err)
    with Pair c show ?thesis by (simp add: pipeline_def statusWrites_append)
  next
    case (Inr dir)
    obtain executed err where x: "executeCommand e cmd dir = (executed, err)"
      by (cases "executeCommand e cmd dir")
    have "statusWrites executed = []"
      using statusWrites_execute[of e cmd dir] x by simp
    with Pair c Inr x show ?thesis
      by (cases err) (simp_all add: pipeline_def statusWrites_append)
  qed
qed

lemma FieldsFrom_Nil_iff: "FieldsFrom cur s = [] \<longleftrightarrow> cur = [] \<and> allSpace s"
  by (induction cur s rule: FieldsFrom.induct) auto

lemma SplitFrom_join:
  "concat (map (\<lambda>l. l @ [sep]) (SplitFrom cur sep s)) = cur @ s @ [sep]"
  by (induction s arbitrary: cur) auto

lemma SplitFrom_no_sep:
  "sep \<notin> set cur \<Longrightarrow> \<forall>l \<in> set (SplitFrom cur sep s). sep \<notin> set l"
proof (induction s arbitrary: cur)
  case Nil
  then show ?case by simp
next
  case (Cons c s)
  show ?case
  proof (cases "c = sep")
    case True
    with Cons.prems Cons.IH[of "[]"] show ?thesis by simp
  next
    case False
    with Cons.prems Cons.IH[of "cur @ [c]"] show ?thesis by simp
  qed
qed

lemma executeCommand_run:
  assumes "Fields command = name # args"
      and "cmdCombinedOutput e name args dir = (output, err)"
  shows "executeCommand e command dir =
           ([AppendLog (''Executing command: '' @ command), Ext (Run name args dir)] @
            map (\<lambda>line. AppendLog (''> '' @ line))
              (filter (\<lambda>line. line \<noteq> '''') (Split output (CHR 0x0A))) @
            [AppendLog (case err of None \<Rightarrow> ''Command executed successfully''
                        | Some msg \<Rightarrow> ''Command execution failed: '' @ msg)], err)"
  using assms by (cases err) (simp_all add: executeCommand_def)

lemma executeCommand_empty:
  assumes "Fields command = []"
  shows "executeCommand e command dir =
           ([AppendLog (''Executing command: '' @ command), AppendLog ''Error: empty command''],
            Some ''empty command'')"
  using assms by (simp add: executeCommand_def)

lemma pipeline_Inl:
  assumes "cloneAndCheckout e r c = (cloned, Inl err)"
  shows "pipeline e r c cmd =
     [SetStatus JobStatusRunning, AppendLog ''Starting job execution''] @ cloned @
     [SetStatus JobStatusFailure]"
  using assms by (simp add: pipeline_def)

lemma pipeline_Inr:
  assumes "cloneAndCheckout e r c = (cloned, Inr dir)"
      and "executeCommand e cmd dir = (executed, err)"
  shows "pipeline e r c cmd =
     [SetStatus JobStatusRunning, AppendLog ''Starting job execution''] @ cloned @
     [AppendLog ''Repository ready for job execution''] @ executed @
     [SetStatus (case err of None \<Rightarrow> JobStatusSuccess | Some msg \<Rightarrow> JobStatusFailure),
      Ext (RemoveAll dir)]"
  using assms by (cases err) (simp_all add: pipeline_def)

text \<open>
  Claim C6. When the clone and the checkout have succeeded and the command has a first
  field, the subprocess runs; its captured output is split at the newlines, every piece
  that is not empty is appended to the job's log behind the prefix \<open>> \<close>, the empty pieces
  are dropped, and when the subprocess reports no error (exit status zero) the job ends
  with status success. The log of the job is then exactly: what it held before, the
  start line, the lines of the clone and checkout, the two lines announcing the command,
  the output lines, and the closing line. The pieces are the lines of the output: none
  holds a newline, and joined by newlines they give the output back.
\<close>

theorem command_output_logged:
  assumes "cloneAndCheckout e repoURI commit = (cloned, Inr tempDir)"
      and "Fields command = name # args"
      and "cmdCombinedOutput e name args tempDir = (output, err)"
  shows "Logs (runJob (pipeline e repoURI commit command) job) =
           Logs job @ [''Starting job execution''] @ logLines cloned @
           [''Repository ready for job execution'', ''Executing command: '' @ command] @
           map (\<lambda>line. ''> '' @ line)
             (filter (\<lambda>line. line \<noteq> '''') (Split output (CHR 0x0A))) @
           [case err of None \<Rightarrow> ''Command executed successfully''
            | Some msg \<Rightarrow> ''Command execution failed: '' @ msg]
         \<and> Status (runJob (pipeline e repoURI commit command) job) =
           (case err of None \<Rightarrow> JobStatusSuccess | Some msg \<Rightarrow> JobStatusFailure)
         \<and> concat (map (\<lambda>line. line @ [CHR 0x0A]) (Split output (CHR 0x0A))) = output @ [CHR 0x0A]
         \<and> (\<forall>line \<in> set (Split output (CHR 0x0A)). CHR 0x0A \<notin> set line)"
proof -
  have sc: "statusWrites cloned = []"
    using statusWrites_clone[of e repoURI commit] assms(1) by simp
  note p = pipeline_Inr[OF assms(1) executeCommand_run[OF assms(2,3)]]
  have "Logs (runJob (pipeline e repoURI commit command) job) =
           Logs job @ [''Starting job execution''] @ logLines cloned @
           [''Repository ready for job execution'', ''Executing command: '' @ command] @
           map (\<lambda>line. ''> '' @ line)
             (filter (\<lambda>line. line \<noteq> '''') (Split output (CHR 0x0A))) @
           [case err of None \<Rightarrow> ''Command executed successfully''
            | Some msg \<Rightarrow> ''Command execution failed: '' @ msg]"
    unfolding runJob_def Logs_fold p
    by (simp add: logLines_append logLines_map_AppendLog)
  moreover have "Status (runJob (pipeline e repoURI commit command) job) =
           (case err of None \<Rightarrow> JobStatusSuccess | Some msg \<Rightarrow> JobStatusFailure)"
    unfolding runJob_def Status_fold p
    by (simp add: statusWrites_append statusWrites_map_AppendLog sc)
  moreover have "concat (map (\<lambda>line. line @ [CHR 0x0A]) (Split output (CHR 0x0A))) = output @ [CHR 0x0A]"
    by (simp add: Split_def SplitFrom_join)
  moreover have "\<forall>line \<in> set (Split output (CHR 0x0A)). CHR 0x0A \<notin> set line"
    using SplitFrom_no_sep[of "CHR 0x0A" "[]" "output"] by (simp add: Split_def)
  ultimately show ?thesis by blast
qed

lemma clone_env_ok:
  "cloneAndCheckout env_ok ''repo'' ''HEAD'' =
     ([Ext (MkdirTemp (Inr ''/tmp/ocuroot-ci-job-1'')), AppendLog ''Cloning repository: repo'',
       Ext (Clone ''repo'' ''/tmp/ocuroot-ci-job-1''), Ext (OpenRepo ''/tmp/ocuroot-ci-job-1''),
       AppendLog ''Checking out commit: HEAD'', Ext (Checkout ''/tmp/ocuroot-ci-job-1'' ''HEAD''),
       AppendLog ''Repository ready at /tmp/ocuroot-ci-job-1''], Inr ''/tmp/ocuroot-ci-job-1'')"
  by (simp add: cloneAndCheckout_def env_ok_def)

lemma Fields_echo_hello: "Fields ''echo hello'' = [''echo'', ''hello'']"
  by (simp add: Fields_def isSpaceAt_def)

theorem command_output_logged_witness:
  "Logs (runJob (pipeline env_ok ''repo'' ''HEAD'' ''echo hello'') job0) =
     [''Starting job execution'', ''Cloning repository: repo'', ''Checking out commit: HEAD'',
      ''Repository ready at /tmp/ocuroot-ci-job-1'', ''Repository ready for job execution'',
      ''Executing command: echo hello'', ''> hello'', ''Command executed successfully'']
   \<and> Status (runJob (pipeline env_ok ''repo'' ''HEAD'' ''echo hello'') job0) = JobStatusSuccess"
proof -
  have out: "cmdCombinedOutput env_ok ''echo'' [''hello''] ''/tmp/ocuroot-ci-job-1'' =
               (''hello'' @ [CHR 0x0A], None)"
    by (simp add: env_ok_def)
  show ?thesis
    using command_output_logged [OF clone_env_ok Fields_echo_hello out, of job0]
    by (simp add: job0_def Split_def)
qed

lemma Fields_Nil_iff: "Fields s = [] \<longleftrightarrow> allSpace s"
  by (simp add: Fields_def FieldsFrom_Nil_iff)

lemma externalCalls_execute_run:
  assumes "Fields command = name # args"
  shows "externalCalls (fst (executeCommand e command dir)) = [Run name args dir]"
proof -
  obtain out err where o: "cmdCombinedOutput e name args dir = (out, err)"
    by (cases "cmdCombinedOutput e name args dir")
  show ?thesis
    unfolding executeCommand_run[OF assms o]
    by (simp add: externalCalls_append externalCalls_map_AppendLog)
qed

subsection \<open>The fields of the command\<close>

text \<open>
  A command of two spaces, sent to a repository that cannot be cloned: the command is
  made of white space only, and the job fails with the entry of the failed clone as its
  last line and no entry about an empty command.
\<close>

theorem blank_command_counterexample:
  "allSpace ''  ''
   \<and> Logs (runJob (pipeline env_unreachable ''repo'' ''HEAD'' ''  '') job0) =
       [''Starting job execution'', ''Cloning repository: repo'',
        ''Failed to clone repository: repository not found'']
   \<and> ''Error: empty command'' \<notin>
       set (Logs (runJob (pipeline env_unreachable ''repo'' ''HEAD'' ''  '') job0))"
  by (simp add: isSpaceAt_def pipeline_def cloneAndCheckout_def env_ok_def
      env_unreachable_def runJob_def job0_def)

text \<open>
  Claim C10, as the code has it. The command string is cut into its white space
  separated fields; the subprocess is started with the first field as its program and
  the other fields as its arguments, as they are (the only external call of
  \<open>executeCommand\<close> is that one: no shell is put in between). A command made of white
  space only has no field and is handled as the empty command is: \<open>executeCommand\<close>
  returns the same error after the same steps, but for the line that repeats the command;
  the pipeline makes the same external calls and the same status writes as for the empty
  command, and the job always ends with status failure. The entry \<open>Error: empty command\<close>
  is the last line of the log when the clone and checkout have succeeded; when they have
  failed, the pipeline is step for step the one of the empty command, which never
  reaches \<open>executeCommand\<close>.
\<close>

theorem command_tokenized_by_fields:
  "(Fields command \<noteq> [] \<longrightarrow>
      externalCalls (fst (executeCommand e command dir)) =
        [Run (hd (Fields command)) (tl (Fields command)) dir])
   \<and> (allSpace command \<longrightarrow>
        Fields command = []
      \<and> executeCommand e command dir =
          ([AppendLog (''Executing command: '' @ command), AppendLog ''Error: empty command''],
           Some ''empty command'')
      \<and> snd (executeCommand e command dir) = snd (executeCommand e '''' dir)
      \<and> tl (fst (executeCommand e command dir)) = tl (fst (executeCommand e '''' dir))
      \<and> Status (runJob (pipeline e repoURI commit command) job) = JobStatusFailure
      \<and> externalCalls (pipeline e repoURI commit command) =
          externalCalls (pipeline e repoURI commit '''')
      \<and> statusWrites (pipeline e repoURI commit command) =
          statusWrites (pipeline e repoURI commit '''')
      \<and> (\<forall>cloned tempDir. cloneAndCheckout e repoURI commit = (cloned, Inr tempDir) \<longrightarrow>
            last (Logs (runJob (pipeline e repoURI commit command) job)) = ''Error: empty command'')
      \<and> (\<forall>cloned err. cloneAndCheckout e repoURI commit = (cloned, Inl err) \<longrightarrow>
            pipeline e repoURI commit command = pipeline e repoURI commit ''''))"
proof (intro conjI impI allI)
  assume "Fields command \<noteq> []"
  then obtain name args where f: "Fields command = name # args"
    by (cases "Fields command") auto
  show "externalCalls (fst (executeCommand e command dir)) =
        [Run (hd (Fields command)) (tl (Fields command)) dir]"
    using externalCalls_execute_run[OF f] f by simp
next
  assume a: "allSpace command"
  then show f: "Fields command = []" by (simp add: Fields_Nil_iff)
  have f0: "Fields '''' = []" by (simp add: Fields_def)
  show "executeCommand e command dir =
          ([AppendLog (''Executing command: '' @ command), AppendLog ''Error: empty command''],
           Some ''empty command'')"
    by (rule executeCommand_empty[OF f])
  show "snd (executeCommand e command dir) = snd (executeCommand e '''' dir)"
    by (simp add: executeCommand_empty[OF f] executeCommand_empty[OF f0])
  show "tl (fst (executeCommand e command dir)) = tl (fst (executeCommand e '''' dir))"
    by (simp add: executeCommand_empty[OF f] executeCommand_empty[OF f0])
  obtain cloned0 res where c0: "cloneAndCheckout e repoURI commit = (cloned0, res)"
    by (cases "cloneAndCheckout e repoURI commit")
  have sc0: "statusWrites cloned0 = []"
    using statusWrites_clone[of e repoURI commit] c0 by simp
  have all: "Status (runJob (pipeline e repoURI commit command) job) = JobStatusFailure
      \<and> externalCalls (pipeline e repoURI commit command) =
          externalCalls (pipeline e repoURI commit '''')
      \<and> statusWrites (pipeline e repoURI commit command) =
          statusWrites (pipeline e repoURI commit '''')"
  proof (cases res)
    case (Inl err)
    show ?thesis
      by (simp add: pipeline_Inl[OF c0[unfolded Inl]] runJob_def Status_fold
          statusWrites_append sc0)
  next
    case (Inr tempDir)
    note p = pipeline_Inr[OF c0[unfolded Inr] executeCommand_empty[OF f]]
    note p0 = pipeline_Inr[OF c0[unfolded Inr] executeCommand_empty[OF f0]]
    show ?thesis
      unfolding runJob_def Status_fold p p0
      by (simp add: statusWrites_append externalCalls_append sc0)
  qed
  from all show "Status (runJob (pipeline e repoURI commit command) job) = JobStatusFailure"
    by blast
  from all show "externalCalls (pipeline e repoURI commit command) =
          externalCalls (pipeline e repoURI commit '''')"
    by blast
  from all show "statusWrites (pipeline e repoURI commit command) =
          statusWrites (pipeline e repoURI commit '''')"
    by blast
  {
    fix cloned tempDir
    assume c: "cloneAndCheckout e repoURI commit = (cloned, Inr tempDir)"
    note p = pipeline_Inr[OF c executeCommand_empty[OF f]]
    show "last (Logs (runJob (pipeline e repoURI commit command) job)) = ''Error: empty command''"
      unfolding runJob_def Logs_fold p by (simp add: logLines_append)
  }
  {
    fix cloned err
    assume c: "cloneAndCheckout e repoURI commit = (cloned, Inl err)"
    show "pipeline e repoURI commit command = pipeline e repoURI commit ''''"
      by (simp add: pipeline_Inl[OF c])
  }
qed

lemma allSpace_blank: "allSpace ([CHR 0x20, CHR 0x09] @ [CHR 0xC2, CHR 0xA0])"
  by (simp add: isSpaceAt_def)

theorem command_tokenized_by_fields_witness:
  "externalCalls (fst (executeCommand env_ok ''echo a|b  $HOME'' ''/w'')) =
     [Run ''echo'' [''a|b'', ''$HOME''] ''/w'']
   \<and> allSpace ([CHR 0x20, CHR 0x09] @ [CHR 0xC2, CHR 0xA0])
   \<and> Fields ([CHR 0x20, CHR 0x09] @ [CHR 0xC2, CHR 0xA0]) = []
   \<and> Status (runJob (pipeline env_ok ''repo'' ''HEAD'' ([CHR 0x20, CHR 0x09] @ [CHR 0xC2, CHR 0xA0])) job0)
       = JobStatusFailure
   \<and> last (Logs (runJob (pipeline env_ok ''repo'' ''HEAD'' ([CHR 0x20, CHR 0x09] @ [CHR 0xC2, CHR 0xA0])) job0))
       = ''Error: empty command''"
proof -
  have f: "Fields ''echo a|b  $HOME'' = [''echo'', ''a|b'', ''$HOME'']"
    by (simp add: Fields_def isSpaceAt_def)
  show ?thesis
    using command_tokenized_by_fields [of "''echo a|b  $HOME''" env_ok "''/w''" "''repo''" "''HEAD''" job0]
      command_tokenized_by_fields [of "[CHR 0x20, CHR 0x09] @ [CHR 0xC2, CHR 0xA0]" env_ok "''/w''" "''repo''" "''HEAD''" job0]
      allSpace_blank clone_env_ok f
    by simp
qed

subsection \<open>The empty command\<close>

text \<open>
  The pipeline looks at the command only in \<open>executeCommand\<close>, after the clone and the
  checkout. With collaborators that all succeed, the clone of the repository is among
  the steps that come before the empty command is rejected; and with a repository
  that cannot be cloned the job fails without any entry about the empty command.
\<close>

theorem empty_command_counterexample:
  "Ext (Clone ''repo'' ''/tmp/ocuroot-ci-job-1'') \<in>
     set (takeWhile (\<lambda>s. s \<noteq> AppendLog ''Error: empty command'')
            (pipeline env_ok ''repo'' ''HEAD'' ''''))
   \<and> ''Error: empty command'' \<notin>
       set (Logs (runJob (pipeline env_unreachable ''repo'' ''HEAD'' '''') job0))"
  by (simp add: pipeline_def cloneAndCheckout_def executeCommand_def Fields_def env_ok_def
      env_unreachable_def runJob_def job0_def)

lemma cloneAndCheckout_calls:
  assumes "cloneAndCheckout e repoURI commit = (cloned, Inr tempDir)"
  shows "externalCalls cloned =
           [MkdirTemp (Inr tempDir), Clone repoURI tempDir, OpenRepo tempDir,
            Checkout tempDir commit]"
  using assms
  by (auto simp: cloneAndCheckout_def Let_def split: sum.splits option.splits)

lemma no_Run_in_clone:
  "Run name args dir \<notin> set (externalCalls (fst (cloneAndCheckout e repoURI commit)))"
  by (simp add: cloneAndCheckout_def Let_def split: sum.splits option.splits)

text \<open>
  Claim C4, as the code has it. For every job submitted with an empty command string, no
  subprocess is ever started and the job ends with status failure. The command is
  rejected after the clone and the checkout, not before: when these succeed, the calls
  made before the rejection are the creation of the temporary directory, the clone, the
  opening of the repository and the checkout; then the log receives the entry
  \<open>Error: empty command\<close>, the status becomes failure and the directory is removed.
\<close>

theorem empty_command_rejected_after_checkout:
  "Run name args dir \<notin> set (externalCalls (pipeline e repoURI commit ''''))
   \<and> Status (runJob (pipeline e repoURI commit '''') job) = JobStatusFailure
   \<and> (\<forall>cloned tempDir. cloneAndCheckout e repoURI commit = (cloned, Inr tempDir) \<longrightarrow>
         pipeline e repoURI commit '''' =
           [SetStatus JobStatusRunning, AppendLog ''Starting job execution''] @ cloned @
           [AppendLog ''Repository ready for job execution'',
            AppendLog ''Executing command: '', AppendLog ''Error: empty command'',
            SetStatus JobStatusFailure, Ext (RemoveAll tempDir)]
       \<and> externalCalls cloned =
           [MkdirTemp (Inr tempDir), Clone repoURI tempDir, OpenRepo tempDir,
            Checkout tempDir commit]
       \<and> last (Logs (runJob (pipeline e repoURI commit '''') job)) = ''Error: empty command'')"
proof -
  have f0: "Fields '''' = []" by (simp add: Fields_def)
  obtain cloned res where c: "cloneAndCheckout e repoURI commit = (cloned, res)"
    by (cases "cloneAndCheckout e repoURI commit")
  have sc: "statusWrites cloned = []"
    using statusWrites_clone[of e repoURI commit] c by simp
  have nr: "Run name args dir \<notin> set (externalCalls cloned)"
    using no_Run_in_clone[of name args dir e repoURI commit] c by simp
  show ?thesis
  proof (cases res)
    case (Inl err)
    note p = pipeline_Inl[OF c[unfolded Inl]]
    show ?thesis
      using c Inl nr
      by (simp add: p runJob_def Status_fold statusWrites_append sc externalCalls_append)
  next
    case (Inr tempDir)
    note p = pipeline_Inr[OF c[unfolded Inr] executeCommand_empty[OF f0]]
    show ?thesis
      using c Inr nr cloneAndCheckout_calls[OF c[unfolded Inr]]
      by (simp add: p runJob_def Status_fold Logs_fold statusWrites_append sc
          externalCalls_append logLines_append)
  qed
qed

theorem empty_command_rejected_after_checkout_witness:
  "pipeline env_ok ''repo'' ''HEAD'' '''' =
     [SetStatus JobStatusRunning, AppendLog ''Starting job execution'',
      Ext (MkdirTemp (Inr ''/tmp/ocuroot-ci-job-1'')), AppendLog ''Cloning repository: repo'',
      Ext (Clone ''repo'' ''/tmp/ocuroot-ci-job-1''), Ext (OpenRepo ''/tmp/ocuroot-ci-job-1''),
      AppendLog ''Checking out commit: HEAD'', Ext (Checkout ''/tmp/ocuroot-ci-job-1'' ''HEAD''),
      AppendLog ''Repository ready at /tmp/ocuroot-ci-job-1'',
      AppendLog ''Repository ready for job execution'',
      AppendLog ''Executing command: '', AppendLog ''Error: empty command'',
      SetStatus JobStatusFailure, Ext (RemoveAll ''/tmp/ocuroot-ci-job-1'')]
   \<and> Status (runJob (pipeline env_ok ''repo'' ''HEAD'' '''') job0) = JobStatusFailure
   \<and> last (Logs (runJob (pipeline env_ok ''repo'' ''HEAD'' '''') job0)) = ''Error: empty command''"
  using empty_command_rejected_after_checkout [of "''x''" "[]" "''y''" env_ok "''repo''" "''HEAD''" job0]
    clone_env_ok
  by auto

subsection \<open>Lookups of an unknown identifier\<close>

text \<open>
  Claim C3. For every identifier that is not in the store, \<open>JobDetail\<close> returns a record
  with exactly that identifier, status failure, and an empty repository, commit, command
  and log, and \<open>JobLogs\<close> returns the empty sequence. Both are total functions of the
  state: there is no error result and no new state, and the only access either makes to
  the map is one load.
\<close>

theorem unknown_id_lookups:
  assumes "jobID \<notin> set (snd (ListJobs s))"
  shows "snd (JobDetail s jobID) =
           \<lparr>ID = jobID, Status = JobStatusFailure, RepoURI = '''', Commit = '''',
            Command = '''', Logs = []\<rparr>
       \<and> snd (JobLogs s jobID) = []
       \<and> fst (JobDetail s jobID) = [RLock, MapLoad jobID, RUnlock]
       \<and> fst (JobLogs s jobID) = [MapLoad jobID]"
proof -
  have "map_of (jobs s) jobID = None"
    using assms by (simp add: ListJobs_def map_of_eq_None_iff)
  then show ?thesis
    by (simp add: JobDetail_def JobLogs_def)
qed

theorem unknown_id_lookups_witness:
  "''01K'' \<notin> set (snd (ListJobs (fire (Submit ''01J'' env_ok ''repo'' ''HEAD'' ''echo hello'') NewCIServer)))
   \<and> snd (JobDetail (fire (Submit ''01J'' env_ok ''repo'' ''HEAD'' ''echo hello'') NewCIServer) ''01K'') =
       \<lparr>ID = ''01K'', Status = JobStatusFailure, RepoURI = '''', Commit = '''',
        Command = '''', Logs = []\<rparr>
   \<and> snd (JobLogs (fire (Submit ''01J'' env_ok ''repo'' ''HEAD'' ''echo hello'') NewCIServer) ''01K'') = []"
proof -
  have h: "''01K'' \<notin> set (snd (ListJobs (fire (Submit ''01J'' env_ok ''repo'' ''HEAD'' ''echo hello'') NewCIServer)))"
    by (simp add: ListJobs_def ScheduleJob_def saveJob_def NewCIServer_def)
  show ?thesis
    using h unknown_id_lookups [OF h] by simp
qed









section \<open>Executions: the reachable states\<close>

lemma chain_pipeline: "chain JobStatusPending (statusWrites (pipeline e r c cmd))"
  using statusWrites_pipeline[of e r c cmd] by auto

lemma wellFormed_init: "wellFormed NewCIServer"
  by (simp add: wellFormed_def NewCIServer_def)

lemma fire_Submit:
  "fire (Submit newID e r c cmd) s =
     s\<lparr>heap := heap s @ [\<lparr>ID = newID, Status = JobStatusPending, RepoURI = r, Commit = c,
                          Command = cmd, Logs = []\<rparr>],
       jobs := AList.update newID (length (heap s)) (jobs s),
       goroutines := goroutines s @ [(length (heap s), pipeline e r c cmd)]\<rparr>"
  by (simp add: ScheduleJob_def saveJob_def Let_def)

lemma set_update_cases:
  "x \<in> set (AList.update k v al) \<Longrightarrow> x = (k, v) \<or> x \<in> set al"
  by (induction al) (auto split: if_splits)

lemma wellFormed_Submit:
  assumes "wellFormed s"
  shows "wellFormed (fire (Submit newID e r c cmd) s)"
proof -
  let ?n = "length (heap s)"
  from assms have len: "length (goroutines s) = ?n"
    and gs: "\<And>g. g < ?n \<Longrightarrow> fst (goroutines s ! g) = g
            \<and> chain (Status (heap s ! g)) (statusWrites (snd (goroutines s ! g)))"
    and js: "\<And>jobID job. (jobID, job) \<in> set (jobs s) \<Longrightarrow> job < ?n \<and> ID (heap s ! job) = jobID"
    and dj: "distinct (map fst (jobs s))"
    by (auto simp: wellFormed_def)
  show ?thesis
    unfolding fire_Submit wellFormed_def
  proof (intro conjI allI impI ballI, goal_cases)
    case 1
    show ?case using len by simp
  next
    case (2 g)
    then have "g < ?n \<or> g = ?n" using len by auto
    then show ?case using gs[of g] len by (auto simp: nth_append)
  next
    case (3 g)
    then have "g < ?n \<or> g = ?n" using len by auto
    then show ?case using gs[of g] len chain_pipeline by (auto simp: nth_append)
  next
    case (4 x)
    then have "x = (newID, ?n) \<or> x \<in> set (jobs s)"
      using set_update_cases[of x newID ?n "jobs s"] by simp
    then show ?case using js by (auto simp: nth_append)
  next
    case 5
    show ?case using dj by (simp add: distinct_update)
  qed
qed

lemma chain_stepJob:
  "chain (Status job) (statusWrites (st # rest)) \<Longrightarrow>
   chain (Status (stepJob st job)) (statusWrites rest)"
  by (cases st) auto

lemma ID_stepJob: "ID (stepJob st job) = ID job"
  by (cases st) auto

lemma wellFormed_Advance:
  assumes "wellFormed s"
  shows "wellFormed (fire (Advance g) s)"
proof (cases "g < length (goroutines s)")
  case False
  with assms show ?thesis by simp
next
  case True
  from assms have len: "length (goroutines s) = length (heap s)"
    and gs: "\<And>i. i < length (heap s) \<Longrightarrow> fst (goroutines s ! i) = i
            \<and> chain (Status (heap s ! i)) (statusWrites (snd (goroutines s ! i)))"
    and js: "\<And>jobID job. (jobID, job) \<in> set (jobs s) \<Longrightarrow>
              job < length (heap s) \<and> ID (heap s ! job) = jobID"
    and dj: "distinct (map fst (jobs s))"
    by (auto simp: wellFormed_def)
  obtain steps where g: "goroutines s ! g = (g, steps)"
    using gs[of g] True len by (cases "goroutines s ! g") auto
  show ?thesis
  proof (cases steps)
    case Nil
    with assms True g show ?thesis by simp
  next
    case (Cons st rest)
    have f: "fire (Advance g) s =
       s\<lparr>heap := (heap s)[g := stepJob st (heap s ! g)],
         goroutines := (goroutines s)[g := (g, rest)],
         disk := stepDisk st (disk s)\<rparr>"
      using True g Cons by simp
    have cg: "chain (Status (stepJob st (heap s ! g))) (statusWrites rest)"
      using gs[of g] True len g Cons chain_stepJob[of "heap s ! g" st rest] by simp
    show ?thesis
      unfolding f wellFormed_def
    proof (intro conjI allI impI ballI, goal_cases)
      case 1
      show ?case using len by simp
    next
      case (2 i)
      then show ?case using gs[of i] len by (cases "i = g") auto
    next
      case (3 i)
      then show ?case using gs[of i] len cg by (cases "i = g") auto
    next
      case (4 x)
      then show ?case using js[of "fst x" "snd x"]
        by (cases x; cases "snd x = g") (auto simp: ID_stepJob)
    next
      case 5
      show ?case using dj by simp
    qed
  qed
qed

lemma wellFormed_fire: "wellFormed s \<Longrightarrow> wellFormed (fire ev s)"
  by (cases ev) (simp_all only: wellFormed_Submit wellFormed_Advance)

lemma exec_Nil: "exec [] s = s"
  by (simp add: exec_def)

lemma exec_Cons: "exec (ev # evs) s = exec evs (fire ev s)"
  by (simp add: exec_def)


lemma wellFormed_exec: "wellFormed s \<Longrightarrow> wellFormed (exec evs s)"
  by (induction evs arbitrary: s) (simp_all add: exec_Nil exec_Cons wellFormed_fire)

lemma wellFormed_reached: "wellFormed (exec evs NewCIServer)"
  by (simp add: wellFormed_exec wellFormed_init)

section \<open>The identifiers in the store\<close>

lemma ScheduleJob_returns: "fst (snd (ScheduleJob s newID e r c cmd)) = newID"
  by (simp add: ScheduleJob_def saveJob_def Let_def)

lemma returnedIDs_submitted: "returnedIDs evs s = submitted evs"
  by (induction evs s rule: returnedIDs.induct) (simp_all add: ScheduleJob_returns)

lemma jobs_Advance: "jobs (fire (Advance g) s) = jobs s"
  by (simp split: prod.splits list.splits)

lemma length_heap_Advance: "length (heap (fire (Advance g) s)) = length (heap s)"
  by (simp split: prod.splits list.splits)

lemma length_heap_fire: "length (heap s) \<le> length (heap (fire ev s))"
  by (cases ev) (simp_all add: fire_Submit length_heap_Advance del: fire.simps)

lemma length_heap_exec: "length (heap s) \<le> length (heap (exec evs s))"
proof (induction evs arbitrary: s)
  case Nil
  show ?case by (simp add: exec_Nil)
next
  case (Cons ev evs)
  show ?case
    using length_heap_fire[of s ev] Cons[of "fire ev s"] by (simp add: exec_Cons)
qed


lemma lookup_exec:
  assumes "jobID \<notin> set (submitted evs)"
  shows "map_of (jobs (exec evs s)) jobID = map_of (jobs s) jobID"
  using assms
proof (induction evs arbitrary: s)
  case Nil
  show ?case by (simp add: exec_Nil)
next
  case (Cons ev evs)
  show ?case
  proof (cases ev)
    case (Submit newID e r c cmd)
    with Cons.prems have n: "newID \<noteq> jobID" and b: "jobID \<notin> set (submitted evs)"
      by auto
    have "map_of (jobs (fire ev s)) jobID = map_of (jobs s) jobID"
      unfolding Submit fire_Submit using n by (simp add: update_conv')
    then show ?thesis
      using Cons.IH[OF b, of "fire ev s"] by (simp add: exec_Cons del: fire.simps)
  next
    case (Advance g)
    with Cons.prems have b: "jobID \<notin> set (submitted evs)" by simp
    show ?thesis
      using Cons.IH[OF b, of "fire ev s"] Advance jobs_Advance[of g s]
      by (simp add: exec_Cons del: fire.simps)
  qed
qed



section \<open>The lifecycle of a job\<close>

lemma fire_Advance_cases:
  assumes "wellFormed s"
  shows "fire (Advance g) s = s
       \<or> (\<exists>st rest. g < length (heap s) \<and> goroutines s ! g = (g, st # rest)
            \<and> fire (Advance g) s =
                s\<lparr>heap := (heap s)[g := stepJob st (heap s ! g)],
                  goroutines := (goroutines s)[g := (g, rest)],
                  disk := stepDisk st (disk s)\<rparr>
            \<and> chain (Status (heap s ! g)) (statusWrites (st # rest)))"
proof (cases "g < length (goroutines s)")
  case False
  then show ?thesis by simp
next
  case True
  from assms have len: "length (goroutines s) = length (heap s)"
    and gs: "fst (goroutines s ! g) = g
            \<and> chain (Status (heap s ! g)) (statusWrites (snd (goroutines s ! g)))"
    using True by (auto simp: wellFormed_def)
  obtain steps where g: "goroutines s ! g = (g, steps)"
    using gs by (cases "goroutines s ! g") auto
  show ?thesis
  proof (cases steps)
    case Nil
    with True g show ?thesis by simp
  next
    case (Cons st rest)
    with True g gs len show ?thesis by simp
  qed
qed

lemma advances_stepJob:
  "chain (Status job) (statusWrites (st # rest)) \<Longrightarrow>
   Status (stepJob st job) = Status job \<or> advances (Status job) (Status (stepJob st job))"
  by (cases st) auto

lemma status_fire:
  assumes "wellFormed s" and "job < length (heap s)"
  shows "Status (heap (fire ev s) ! job) = Status (heap s ! job)
       \<or> advances (Status (heap s ! job)) (Status (heap (fire ev s) ! job))"
proof (cases ev)
  case (Submit newID e r c cmd)
  with assms(2) show ?thesis by (simp add: fire_Submit nth_append del: fire.simps)
next
  case (Advance g)
  from fire_Advance_cases[OF assms(1), of g] show ?thesis
  proof (elim disjE exE conjE)
    assume "fire (Advance g) s = s"
    with Advance show ?thesis by simp
  next
    fix st rest
    assume f: "fire (Advance g) s =
                s\<lparr>heap := (heap s)[g := stepJob st (heap s ! g)],
                  goroutines := (goroutines s)[g := (g, rest)],
                  disk := stepDisk st (disk s)\<rparr>"
      and c: "chain (Status (heap s ! g)) (statusWrites (st # rest))"
    show ?thesis
    proof (cases "job = g")
      case True
      with Advance f assms(2) advances_stepJob[OF c] show ?thesis
        by (simp del: fire.simps)
    next
      case False
      with Advance f show ?thesis by (simp del: fire.simps)
    qed
  qed
qed

lemma record_fire_Submit:
  "job < length (heap s) \<Longrightarrow> heap (fire (Submit newID e r c cmd) s) ! job = heap s ! job"
  by (simp add: fire_Submit nth_append del: fire.simps)

lemma record_fire_Advance:
  assumes "wellFormed s" and "job < length (heap s)"
      and "heap (fire (Advance g) s) ! job \<noteq> heap s ! job"
  shows "g = job \<and> (\<exists>st rest. goroutines s ! job = (job, st # rest)
           \<and> heap (fire (Advance g) s) ! job = stepJob st (heap s ! job))"
  using fire_Advance_cases[OF assms(1), of g]
proof (elim disjE exE conjE)
  assume "fire (Advance g) s = s"
  with assms(3) show ?thesis by simp
next
  fix st rest
  assume f: "fire (Advance g) s =
                s\<lparr>heap := (heap s)[g := stepJob st (heap s ! g)],
                  goroutines := (goroutines s)[g := (g, rest)],
                  disk := stepDisk st (disk s)\<rparr>"
    and g: "goroutines s ! g = (g, st # rest)"
  have "job = g"
  proof (rule ccontr)
    assume "job \<noteq> g"
    with f assms(3) show False by (simp del: fire.simps)
  qed
  with f g assms(2) show ?thesis by (auto simp del: fire.simps)
qed

lemma notEarlier_refl: "notEarlier a a"
  by (cases a) auto

lemma notEarlier_step:
  "b = a \<or> advances a b \<Longrightarrow> notEarlier b c \<Longrightarrow> notEarlier a c"
  by (cases a; cases b; cases c) auto

lemma status_exec:
  assumes "wellFormed s" and "job < length (heap s)"
  shows "notEarlier (Status (heap s ! job)) (Status (heap (exec evs s) ! job))"
  using assms
proof (induction evs arbitrary: s)
  case Nil
  show ?case by (simp add: exec_Nil notEarlier_refl)
next
  case (Cons ev evs)
  have w: "wellFormed (fire ev s)" by (rule wellFormed_fire[OF Cons.prems(1)])
  have l: "job < length (heap (fire ev s))"
    using Cons.prems(2) length_heap_fire[of s ev] by simp
  have "notEarlier (Status (heap (fire ev s) ! job)) (Status (heap (exec evs (fire ev s)) ! job))"
    by (rule Cons.IH[OF w l])
  with status_fire[OF Cons.prems, of ev] show ?case
    unfolding exec_Cons by (blast intro: notEarlier_step)
qed

lemma terminal_stays: "terminal a \<Longrightarrow> notEarlier a b \<Longrightarrow> b = a"
  by (cases a) auto

lemma JobDetail_known:
  "map_of (jobs s) jobID = Some job \<Longrightarrow> snd (JobDetail s jobID) = heap s ! job"
  by (simp add: JobDetail_def)

text \<open>
  Claim C1. In every state \<open>s\<close> that an execution reaches, and for every record \<open>job\<close>
  of that state:
  \<^item> a submission puts a new record at the next address, with the new identifier, status
    pending and an empty log, and a reader asking for this identifier gets that record;
  \<^item> a submission leaves the records that exist untouched, and a step of a goroutine
    changes a record only when it is the goroutine started for that record, by the next
    step of its pipeline (the read operations of the store are functions of the state
    and return no state);
  \<^item> any single event leaves the status as it is or moves it from pending to running,
    or from running to success or failure;
  \<^item> after any further execution \<open>evs'\<close> the status is not an earlier one, and a status
    of success or failure is still the same;
  \<^item> a reader asking by identifier sees that same record before and after the further
    execution, as long as the identifier is not handed out again.
\<close>

theorem status_lifecycle:
  assumes "s = exec evs NewCIServer" and "job < length (heap s)"
  shows "heap (fire (Submit newID e repoURI commit command) s) ! length (heap s) =
           \<lparr>ID = newID, Status = JobStatusPending, RepoURI = repoURI, Commit = commit,
            Command = command, Logs = []\<rparr>
       \<and> snd (JobDetail (fire (Submit newID e repoURI commit command) s) newID) =
           \<lparr>ID = newID, Status = JobStatusPending, RepoURI = repoURI, Commit = commit,
            Command = command, Logs = []\<rparr>
       \<and> heap (fire (Submit newID e repoURI commit command) s) ! job = heap s ! job
       \<and> (heap (fire (Advance g) s) ! job \<noteq> heap s ! job \<longrightarrow>
            g = job \<and> (\<exists>st rest. goroutines s ! job = (job, st # rest)
              \<and> heap (fire (Advance g) s) ! job = stepJob st (heap s ! job)))
       \<and> (Status (heap (fire ev s) ! job) = Status (heap s ! job)
            \<or> advances (Status (heap s ! job)) (Status (heap (fire ev s) ! job)))
       \<and> notEarlier (Status (heap s ! job)) (Status (heap (exec evs' s) ! job))
       \<and> (terminal (Status (heap s ! job)) \<longrightarrow>
            Status (heap (exec evs' s) ! job) = Status (heap s ! job))
       \<and> (\<forall>jobID. map_of (jobs s) jobID = Some job
              \<and> jobID \<notin> set (returnedIDs evs' s) \<longrightarrow>
            snd (JobDetail s jobID) = heap s ! job
          \<and> snd (JobDetail (exec evs' s) jobID) = heap (exec evs' s) ! job)"
proof -
  have w: "wellFormed s" using assms(1) by (simp add: wellFormed_reached)
  have 1: "heap (fire (Submit newID e repoURI commit command) s) ! length (heap s) =
           \<lparr>ID = newID, Status = JobStatusPending, RepoURI = repoURI, Commit = commit,
            Command = command, Logs = []\<rparr>"
    by (simp add: fire_Submit del: fire.simps)
  have "map_of (jobs (fire (Submit newID e repoURI commit command) s)) newID = Some (length (heap s))"
    by (simp add: fire_Submit update_conv' del: fire.simps)
  then have 2: "snd (JobDetail (fire (Submit newID e repoURI commit command) s) newID) =
           \<lparr>ID = newID, Status = JobStatusPending, RepoURI = repoURI, Commit = commit,
            Command = command, Logs = []\<rparr>"
    using 1 by (simp add: JobDetail_known del: fire.simps)
  note 3 = record_fire_Submit[OF assms(2), of newID e repoURI commit command]
  have 4: "heap (fire (Advance g) s) ! job \<noteq> heap s ! job \<longrightarrow>
            g = job \<and> (\<exists>st rest. goroutines s ! job = (job, st # rest)
              \<and> heap (fire (Advance g) s) ! job = stepJob st (heap s ! job))"
    using record_fire_Advance[OF w assms(2), of g] by blast
  note 5 = status_fire[OF w assms(2), of ev]
  note 6 = status_exec[OF w assms(2), of evs']
  have 7: "terminal (Status (heap s ! job)) \<longrightarrow>
            Status (heap (exec evs' s) ! job) = Status (heap s ! job)"
    using 6 terminal_stays by blast
  have 8: "\<forall>jobID. map_of (jobs s) jobID = Some job
              \<and> jobID \<notin> set (returnedIDs evs' s) \<longrightarrow>
            snd (JobDetail s jobID) = heap s ! job
          \<and> snd (JobDetail (exec evs' s) jobID) = heap (exec evs' s) ! job"
  proof (intro allI impI)
    fix jobID
    assume a: "map_of (jobs s) jobID = Some job \<and> jobID \<notin> set (returnedIDs evs' s)"
    then have n: "jobID \<notin> set (submitted evs')" by (simp add: returnedIDs_submitted)
    have "map_of (jobs (exec evs' s)) jobID = Some job"
      using a lookup_exec[OF n, of s] by simp
    with a show "snd (JobDetail s jobID) = heap s ! job
          \<and> snd (JobDetail (exec evs' s) jobID) = heap (exec evs' s) ! job"
      by (simp add: JobDetail_known)
  qed
  from 1 2 3 4 5 6 7 8 show ?thesis by blast
qed

section \<open>The example executions\<close>

lemmas eval_defs = exec_def ScheduleJob_def saveJob_def pipeline_def cloneAndCheckout_def
  executeCommand_def Fields_def isSpaceAt_def Split_def env_ok_def NewCIServer_def
  submit1_def submit2_def

lemma sDone_eval:
  "sDone =
     \<lparr>jobs = [(''01J'', 0)],
      heap = [\<lparr>ID = ''01J'', Status = JobStatusSuccess, RepoURI = ''repo'', Commit = ''HEAD'',
               Command = ''echo hello'',
               Logs = [''Starting job execution'', ''Cloning repository: repo'',
                       ''Checking out commit: HEAD'',
                       ''Repository ready at /tmp/ocuroot-ci-job-1'',
                       ''Repository ready for job execution'',
                       ''Executing command: echo hello'', ''> hello'',
                       ''Command executed successfully'']\<rparr>],
      goroutines = [(0, [])],
      disk = []\<rparr>"
  by (simp add: sDone_def eval_defs)

lemma sRunning_eval:
  "jobs sRunning = [(''01J'', 0)]
   \<and> heap sRunning = [\<lparr>ID = ''01J'', Status = JobStatusRunning, RepoURI = ''repo'',
                        Commit = ''HEAD'', Command = ''echo hello'', Logs = []\<rparr>]"
  by (simp add: sRunning_def eval_defs)

lemma sNext_eval:
  "jobs sNext = [(''01J'', 0), (''01K'', 1)]
   \<and> map Status (heap sNext) = [JobStatusSuccess, JobStatusPending]
   \<and> length (heap sNext) = 2"
  by (simp add: sNext_def submit2_def fire_Submit sDone_eval del: fire.simps)

lemma reads_sDone:
  "snd (ListJobs sDone) = [''01J''] \<and> map Status (snd (AllJobDetail sDone)) = [JobStatusSuccess]
   \<and> allDone (snd (AllJobDetail sDone)) \<and> \<not> someNotSuccess (snd (AllJobDetail sDone))"
  by (simp add: ListJobs_def AllJobDetail_def sDone_eval)

lemma reads_sRunning:
  "snd (ListJobs sRunning) = [''01J''] \<and> \<not> allDone (snd (AllJobDetail sRunning))"
  by (simp add: ListJobs_def AllJobDetail_def sRunning_eval)

lemma nth_map_Status: "i < length xs \<Longrightarrow> Status (xs ! i) = map Status xs ! i"
  by simp

lemma reads_sNext:
  "snd (ListJobs sNext) = [''01J'', ''01K'']
   \<and> map Status (snd (AllJobDetail sNext)) = [JobStatusSuccess, JobStatusPending]
   \<and> someNotSuccess (snd (AllJobDetail sNext))"
proof -
  have h: "heap sNext ! 0 = heap sDone ! 0 \<and> Status (heap sNext ! Suc 0) = JobStatusPending"
    by (simp add: sNext_def submit2_def fire_Submit sDone_eval del: fire.simps)
  have j: "jobs sNext = [(''01J'', 0), (''01K'', 1)]" using sNext_eval by simp
  show ?thesis
    using h by (simp add: ListJobs_def AllJobDetail_def j sDone_eval)
qed

subsection \<open>The outcome of the wait when a job arrives late\<close>

text \<open>
  Claim C2. The handler takes its decision between \<open>all-succeeded\<close> and \<open>some-failed\<close>
  from a new reading of the store, not from the reading in which it found every job
  terminal. With \<open>wait_race\<close> the one job that exists has succeeded at the reading that
  ends the second loop (the third reading), a second job is submitted before the fourth
  reading, and the handler answers \<open>one or more jobs failed\<close>: at that moment the statuses
  are success and pending, no job has status failure, and every job that existed when
  all became terminal has status success.
\<close>

theorem wait_reports_failure_without_failed_job:
  "fst (handleWait wait_race) = some_failed
   \<and> polls (snd (handleWait wait_race)) = [0, 0, 0, 0]
   \<and> map Status (snd (AllJobDetail (observed wait_race 2))) = [JobStatusSuccess]
   \<and> map Status (snd (AllJobDetail (observed wait_race 3))) = [JobStatusSuccess, JobStatusPending]"
  by (simp add: handleWait_def wait_race_def readStore_def reads_sDone reads_sNext
      Millisecond_def Second_def Minute_def)

subsection \<open>Cancelling the wait\<close>

text \<open>
  With \<open>wait_cancelled\<close> the caller cancels the request at instant 0. The handler goes on
  reading the store at 200 ms and at 300 ms, later than one poll interval after the
  cancellation, and ends with its ordinary answer once the job has finished.
\<close>

theorem wait_keeps_polling_counterexample:
  "ctxDone wait_cancelled = Some 0
   \<and> polls (snd (handleWait wait_cancelled)) =
       [0, 0, 0, 100 * Millisecond, 200 * Millisecond, 300 * Millisecond, 300 * Millisecond]
   \<and> filter (\<lambda>t. 0 + 100 * Millisecond < t) (polls (snd (handleWait wait_cancelled))) =
       [200 * Millisecond, 300 * Millisecond, 300 * Millisecond]
   \<and> fst (handleWait wait_cancelled) = all_succeeded"
  by (simp add: handleWait_def wait_cancelled_def readStore_def Sleep_def reads_sDone
      reads_sRunning Millisecond_def Second_def Minute_def)

lemma readStore_ctx: "readStore (w\<lparr>ctxDone := c\<rparr>) st = readStore w st"
  by (simp add: readStore_def)

lemma Sleep_ctx: "Sleep (w\<lparr>ctxDone := c\<rparr>) st = Sleep w st"
  by (simp add: Sleep_def)

lemma arrival_ctx: "arrival (w\<lparr>ctxDone := c\<rparr>) start st = arrival w start st"
proof (induction w start st rule: arrival.induct)
  case (1 w start st)
  show ?case
    apply (subst arrival.simps)
    apply (subst (2) arrival.simps)
    using 1 by (simp add: readStore_ctx Sleep_ctx del: arrival.simps)
qed

lemma drain_ctx: "drain (w\<lparr>ctxDone := c\<rparr>) start st = drain w start st"
proof (induction w start st rule: drain.induct)
  case (1 w start st)
  show ?case
    apply (subst drain.simps)
    apply (subst (2) drain.simps)
    using 1 by (simp add: readStore_ctx Sleep_ctx del: drain.simps)
qed

lemma handleWait_outcomes:
  "fst (handleWait w) = no_jobs \<or> fst (handleWait w) = timeout
   \<or> fst (handleWait w) = some_failed \<or> fst (handleWait w) = all_succeeded"
  by (simp add: handleWait_def Let_def del: arrival.simps drain.simps
      split: prod.splits bool.splits)

text \<open>
  Claim C9, as the code has it. The polling loops of the handler never look at the
  request's context: whether and when the caller cancels, the handler reads the store at
  the same instants, sleeps as often and returns the same message, one of its four. So
  it stops polling only when it reaches one of its four outcomes. The two operations
  through which it meets the store, \<^verbatim>\<open>ListJobs\<close> and \<^verbatim>\<open>AllJobDetail\<close>, take the read lock
  and only range over the map: the jobs run on unaffected.
\<close>

theorem wait_ignores_cancellation:
  "handleWait (w\<lparr>ctxDone := c\<rparr>) = handleWait w
   \<and> (fst (handleWait (w\<lparr>ctxDone := c\<rparr>)) = no_jobs
        \<or> fst (handleWait (w\<lparr>ctxDone := c\<rparr>)) = timeout
        \<or> fst (handleWait (w\<lparr>ctxDone := c\<rparr>)) = some_failed
        \<or> fst (handleWait (w\<lparr>ctxDone := c\<rparr>)) = all_succeeded)
   \<and> fst (ListJobs s) = [RLock, MapRange, RUnlock]
   \<and> fst (AllJobDetail s) = [RLock, MapRange, RUnlock]"
proof -
  have "handleWait (w\<lparr>ctxDone := c\<rparr>) = handleWait w"
    by (simp add: handleWait_def arrival_ctx drain_ctx readStore_ctx Let_def
        del: arrival.simps drain.simps split: prod.splits bool.splits)
  moreover have "fst (ListJobs s) = [RLock, MapRange, RUnlock]"
    by (simp add: ListJobs_def)
  moreover have "fst (AllJobDetail s) = [RLock, MapRange, RUnlock]"
    by (simp add: AllJobDetail_def)
  ultimately show ?thesis
    using handleWait_outcomes[of "w\<lparr>ctxDone := c\<rparr>"] by blast
qed

subsection \<open>The lock discipline of the store\<close>

text \<open>
  Claim C5. Every operation of the store that touches the map from identifiers to records
  should hold the lock of the store while it does. \<^verbatim>\<open>saveJob\<close>, \<^verbatim>\<open>ScheduleJob\<close>,
  \<^verbatim>\<open>ListJobs\<close>, \<^verbatim>\<open>AllJobDetail\<close> and \<^verbatim>\<open>JobDetail\<close> do; \<^verbatim>\<open>JobLogs\<close> does not: for every
  state and identifier it loads from the map with the lock not held, where \<^verbatim>\<open>JobDetail\<close>
  makes the same load between \<^verbatim>\<open>RLock\<close> and \<^verbatim>\<open>RUnlock\<close>.
\<close>

theorem JobLogs_reads_map_unlocked:
  "locked NotHeld (fst (saveJob s job))
   \<and> locked NotHeld (fst (ScheduleJob s newID e repoURI commit command))
   \<and> locked NotHeld (fst (ListJobs s))
   \<and> locked NotHeld (fst (AllJobDetail s))
   \<and> locked NotHeld (fst (JobDetail s jobID))
   \<and> \<not> locked NotHeld (fst (JobLogs s jobID))
   \<and> fst (JobDetail s jobID) = [RLock, MapLoad jobID, RUnlock]
   \<and> fst (JobLogs s jobID) = [MapLoad jobID]"
  by (simp add: saveJob_def ScheduleJob_def ListJobs_def AllJobDetail_def JobDetail_def
      JobLogs_def Let_def)


subsection \<open>Instances on the example executions\<close>


theorem status_lifecycle_witness:
  "sRunning = exec [submit1, Advance 0] NewCIServer
   \<and> 0 < length (heap sRunning)
   \<and> Status (heap sRunning ! 0) = JobStatusRunning
   \<and> notEarlier (Status (heap sRunning ! 0)) (Status (heap (exec [Advance 0] sRunning) ! 0))"
proof -
  have h: "0 < length (heap sRunning)" using sRunning_eval by simp
  have r: "Status (heap sRunning ! 0) = JobStatusRunning" using sRunning_eval by simp
  note t = status_lifecycle [where s = sRunning and evs = "[submit1, Advance 0]" and job = 0
      and evs' = "[Advance 0]", OF sRunning_def h]
  from t have "notEarlier (Status (heap sRunning ! 0)) (Status (heap (exec [Advance 0] sRunning) ! 0))"
    by blast
  with h r sRunning_def show ?thesis by blast
qed

end
